theory Spec2Isabelle
  imports
    Main
    "HOL-Library.Word"
    "HOL-Library.Char_ord"
    "HOL-Library.List_Lexorder"
    "HOL-Library.AList"
begin

unbundle bit_operations_syntax

section \<open>Strings and row objects\<close>

text \<open>
  A JavaScript string is modelled as a \<^typ>\<open>string\<close> of ASCII characters; the default
  \<^verbatim>\<open>Array.prototype.sort\<close> (comparison by code units) is then \<^const>\<open>sort\<close> under the
  lexicographic order on character lists.

  A row object is an association list in property insertion order.  A cell is a string
  or \<^verbatim>\<open>null\<close> (\<^const>\<open>None\<close>); a property that is absent reads as \<^verbatim>\<open>undefined\<close>.
  Column names are ordinary property names (not \<^verbatim>\<open>__proto__\<close>).
\<close>

type_synonym cell = "string option"
type_synonym row = "(string \<times> cell) list"

datatype jsval = Undefined | Null | Str string

definition get_prop :: "row \<Rightarrow> string \<Rightarrow> jsval" where
  "get_prop r col = (case map_of r col of None \<Rightarrow> Undefined | Some None \<Rightarrow> Null | Some (Some s) \<Rightarrow> Str s)"

definition truthy :: "jsval \<Rightarrow> bool" where
  "truthy v = (case v of Str s \<Rightarrow> s \<noteq> [] | _ \<Rightarrow> False)"

definition js_String :: "jsval \<Rightarrow> string" where
  "js_String v = (case v of Undefined \<Rightarrow> ''undefined'' | Null \<Rightarrow> ''null'' | Str s \<Rightarrow> s)"

fun join :: "string \<Rightarrow> string list \<Rightarrow> string" where
  "join sep [] = []"
| "join sep [x] = x"
| "join sep (x # y # ys) = x @ sep @ join sep (y # ys)"

definition toLowerCase_char :: "char \<Rightarrow> char" where
  "toLowerCase_char c =
     (if CHR ''A'' \<le> c \<and> c \<le> CHR ''Z'' then char_of (of_char c + (32::nat)) else c)"

definition toLowerCase :: "string \<Rightarrow> string" where
  "toLowerCase s = map toLowerCase_char s"

fun starts_with :: "string \<Rightarrow> string \<Rightarrow> bool" where
  "starts_with [] s = True"
| "starts_with (p # ps) [] = False"
| "starts_with (p # ps) (c # cs) = (p = c \<and> starts_with ps cs)"

fun str_includes :: "string \<Rightarrow> string \<Rightarrow> bool" where
  "str_includes [] p = (p = [])"
| "str_includes (c # cs) p = (starts_with p (c # cs) \<or> str_includes cs p)"

section \<open>SHA-256\<close>

text \<open>
  \<^verbatim>\<open>crypto.createHash('sha256').update(s, 'utf8').digest('hex')\<close> belongs to the Node
  runtime, not to the repository.  It is written out here after FIPS 180-4 so that the
  hash of a row is a computable string; the round constants and the initial hash value
  are given in decimal.
\<close>

definition sha256_K :: "32 word list" where
  "sha256_K =
    [1116352408, 1899447441, 3049323471, 3921009573, 961987163, 1508970993,
     2453635748, 2870763221, 3624381080, 310598401, 607225278, 1426881987,
     1925078388, 2162078206, 2614888103, 3248222580, 3835390401, 4022224774,
     264347078, 604807628, 770255983, 1249150122, 1555081692, 1996064986,
     2554220882, 2821834349, 2952996808, 3210313671, 3336571891, 3584528711,
     113926993, 338241895, 666307205, 773529912, 1294757372, 1396182291,
     1695183700, 1986661051, 2177026350, 2456956037, 2730485921, 2820302411,
     3259730800, 3345764771, 3516065817, 3600352804, 4094571909, 275423344,
     430227734, 506948616, 659060556, 883997877, 958139571, 1322822218,
     1537002063, 1747873779, 1955562222, 2024104815, 2227730452, 2361852424,
     2428436474, 2756734187, 3204031479, 3329325298]"

definition sha256_H0 :: "32 word list" where
  "sha256_H0 =
    [1779033703, 3144134277, 1013904242, 2773480762, 1359893119, 2600822924,
     528734635, 1541459225]"

definition sha256_pad :: "8 word list \<Rightarrow> 8 word list" where
  "sha256_pad m =
     m @ [0x80] @ replicate ((119 - length m mod 64) mod 64) 0
       @ map (\<lambda>i. ucast (drop_bit (8 * (7 - i)) (of_nat (8 * length m) :: 64 word))) [0..<8]"

definition be32 :: "8 word list \<Rightarrow> 32 word" where
  "be32 bs = foldl (\<lambda>acc b. push_bit 8 acc OR ucast b) 0 bs"

fun words_of :: "8 word list \<Rightarrow> 32 word list" where
  "words_of (a # b # c # d # rest) = be32 [a, b, c, d] # words_of rest"
| "words_of _ = []"

primrec sha256_schedule :: "nat \<Rightarrow> 32 word list \<Rightarrow> 32 word list" where
  "sha256_schedule 0 w = w"
| "sha256_schedule (Suc n) w =
     (let t = length w;
          x15 = w ! (t - 15);
          x2 = w ! (t - 2);
          s0 = word_rotr 7 x15 XOR word_rotr 18 x15 XOR drop_bit 3 x15;
          s1 = word_rotr 17 x2 XOR word_rotr 19 x2 XOR drop_bit 10 x2
      in sha256_schedule n (w @ [s1 + w ! (t - 7) + s0 + w ! (t - 16)]))"

definition sha256_round :: "32 word list \<Rightarrow> 32 word \<times> 32 word \<Rightarrow> 32 word list" where
  "sha256_round st kw =
     (case st of [a, b, c, d, e, f, g, h] \<Rightarrow>
        (let S1 = word_rotr 6 e XOR word_rotr 11 e XOR word_rotr 25 e;
             ch = (e AND f) XOR (NOT e AND g);
             t1 = h + S1 + ch + fst kw + snd kw;
             S0 = word_rotr 2 a XOR word_rotr 13 a XOR word_rotr 22 a;
             maj = (a AND b) XOR (a AND c) XOR (b AND c);
             t2 = S0 + maj
         in [t1 + t2, a, b, c, d + t1, e, f, g])
      | _ \<Rightarrow> st)"

definition sha256_block :: "32 word list \<Rightarrow> 32 word list \<Rightarrow> 32 word list" where
  "sha256_block hs block =
     map2 (+) hs (foldl sha256_round hs (zip sha256_K (sha256_schedule 48 block)))"

fun blocks_of :: "32 word list \<Rightarrow> 32 word list list" where
  "blocks_of ws = (if length ws < 16 then [] else take 16 ws # blocks_of (drop 16 ws))"

definition hex_digit :: "nat \<Rightarrow> char" where
  "hex_digit n = ''0123456789abcdef'' ! (n mod 16)"

definition hex32 :: "32 word \<Rightarrow> string" where
  "hex32 w = map (\<lambda>i. hex_digit (unat (drop_bit (4 * (7 - i)) w AND 15))) [0..<8]"

definition sha256_hex :: "string \<Rightarrow> string" where
  "sha256_hex s =
     concat (map hex32
       (foldl sha256_block sha256_H0
          (blocks_of (words_of (sha256_pad (map (\<lambda>c. of_nat (of_char c)) s))))))"

declare blocks_of.simps [simp del]


section \<open>The diff engine\<close>

subsection \<open>computeRowHash\<close>

text \<open>
  \<^verbatim>\<open>normalized\<close> is the object filled by the loop over \<^verbatim>\<open>columns\<close> (a repeated column
  overwrites its own property); \<^verbatim>\<open>Object.keys(normalized).sort()\<close> are its property names in
  code-unit order; the canonical text joins \<^verbatim>\<open>key:value\<close> with \<^verbatim>\<open>|\<close>.
\<close>

definition normalize_value :: "jsval \<Rightarrow> string" where
  "normalize_value v = (case v of Null \<Rightarrow> [] | Undefined \<Rightarrow> [] | Str s \<Rightarrow> js_String (Str s))"

definition normalized_of :: "row \<Rightarrow> string list \<Rightarrow> (string \<times> string) list" where
  "normalized_of r columns =
     fold (\<lambda>col normalized. AList.update col (normalize_value (get_prop r col)) normalized) columns []"

definition normalizedString :: "row \<Rightarrow> string list \<Rightarrow> string" where
  "normalizedString r columns =
     (let normalized = normalized_of r columns;
          sortedKeys = sort (map fst normalized)
      in join ''|''
           (map (\<lambda>key. key @ '':'' @
                   (case map_of normalized key of Some v \<Rightarrow> v | None \<Rightarrow> ''undefined''))
                sortedKeys))"

definition computeRowHash :: "row \<Rightarrow> string list \<Rightarrow> string" where
  "computeRowHash r columns = sha256_hex (normalizedString r columns)"

subsection \<open>computeRowId\<close>

definition idPatterns :: "string list" where
  "idPatterns = [''id'', ''uuid'', ''_id'', ''row_id'', ''key'', ''primary_key'']"

fun natural_id :: "row \<Rightarrow> string list \<Rightarrow> string list \<Rightarrow> string option" where
  "natural_id r columns [] = None"
| "natural_id r columns (pattern # patterns) =
     (case find (\<lambda>col. str_includes (toLowerCase col) (toLowerCase pattern)) columns of
        Some idCol \<Rightarrow>
          if idCol \<noteq> [] \<and> truthy (get_prop r idCol) then Some (js_String (get_prop r idCol))
          else natural_id r columns patterns
      | None \<Rightarrow> natural_id r columns patterns)"

definition computeRowId :: "row \<Rightarrow> string list \<Rightarrow> int \<Rightarrow> string" where
  "computeRowId r columns rowIndex =
     (case natural_id r columns idPatterns of
        Some rid \<Rightarrow> rid
      | None \<Rightarrow> computeRowHash r columns)"

subsection \<open>computeDiff\<close>

text \<open>
  A snapshot row is the object built by \<^verbatim>\<open>getSnapshot\<close>: the system properties, and the
  column properties (kept in \<open>sr_cells\<close>; a header that is itself the name of a system
  property is outside the model).  A number that is absent, \<^verbatim>\<open>null\<close> or otherwise not a
  number is \<^const>\<open>None\<close>.
\<close>

record snapshot_row =
  sr_id :: "int option"
  sr_row_hash :: "string option"
  sr_row_id :: "string option"
  sr_revision :: "int option"
  sr_source :: "string option"
  sr_deleted_at :: "nat option"
  sr_cells :: row

record sheet_row_data =
  sd_row :: row
  sd_hash :: string
  sd_rowId :: string
  sd_index :: nat

record db_row_data =
  dd_row :: snapshot_row
  dd_hash :: string
  dd_rowId :: string
  dd_dbId :: "int option"
  dd_index :: nat

record insert_item =
  ins_row :: row
  ins_hash :: string
  ins_rowId :: string
  ins_index :: nat

record update_item =
  upd_row :: row
  upd_hash :: string
  upd_rowId :: string
  upd_dbRow :: snapshot_row
  upd_dbHash :: string
  upd_dbId :: "int option"
  upd_index :: nat

record delete_item =
  del_row :: snapshot_row
  del_hash :: string
  del_rowId :: string
  del_dbId :: "int option"
  del_index :: nat

record diff =
  inserts :: "insert_item list"
  updates :: "update_item list"
  deletes :: "delete_item list"
  unchanged :: int

definition or_else :: "string option \<Rightarrow> string \<Rightarrow> string" where
  "or_else v d = (case v of Some s \<Rightarrow> if s \<noteq> [] then s else d | None \<Rightarrow> d)"

definition sheet_data :: "string list \<Rightarrow> nat \<times> row \<Rightarrow> sheet_row_data" where
  "sheet_data columns ir =
     (case ir of (index, r) \<Rightarrow>
        \<lparr>sd_row = r, sd_hash = computeRowHash r columns,
         sd_rowId = computeRowId r columns (int index), sd_index = index\<rparr>)"

definition db_data :: "string list \<Rightarrow> nat \<times> snapshot_row \<Rightarrow> db_row_data" where
  "db_data columns ir =
     (case ir of (index, dbRow) \<Rightarrow>
        \<lparr>dd_row = dbRow,
         dd_hash = or_else (sr_row_hash dbRow) (computeRowHash (sr_cells dbRow) columns),
         dd_rowId = or_else (sr_row_id dbRow)
            (computeRowId (sr_cells dbRow) columns (case sr_id dbRow of Some i \<Rightarrow> i | None \<Rightarrow> 0)),
         dd_dbId = sr_id dbRow, dd_index = index\<rparr>)"

definition map_get :: "'a list \<Rightarrow> nat \<Rightarrow> 'a option" where
  "map_get byIndex index = (if index < length byIndex then Some (byIndex ! index) else None)"

definition diff_step ::
  "sheet_row_data list \<Rightarrow> db_row_data list \<Rightarrow> nat
     \<Rightarrow> insert_item list \<times> update_item list \<times> delete_item list
     \<Rightarrow> insert_item list \<times> update_item list \<times> delete_item list" where
  "diff_step sheetRowsByIndex dbRowsByIndex index acc =
     (case acc of (ins, upd, del) \<Rightarrow>
       (case (map_get sheetRowsByIndex index, map_get dbRowsByIndex index) of
          (Some s, None) \<Rightarrow>
            (ins @ [\<lparr>ins_row = sd_row s, ins_hash = sd_hash s, ins_rowId = sd_rowId s,
                     ins_index = index\<rparr>], upd, del)
        | (None, Some d) \<Rightarrow>
            (ins, upd,
             del @ [\<lparr>del_row = dd_row d, del_hash = dd_hash d, del_rowId = dd_rowId d,
                     del_dbId = dd_dbId d, del_index = index\<rparr>])
        | (Some s, Some d) \<Rightarrow>
            if sd_hash s \<noteq> dd_hash d
            then (ins,
                  upd @ [\<lparr>upd_row = sd_row s, upd_hash = sd_hash s, upd_rowId = sd_rowId s,
                          upd_dbRow = dd_row d, upd_dbHash = dd_hash d, upd_dbId = dd_dbId d,
                          upd_index = index\<rparr>],
                  del)
            else (ins, upd, del)
        | (None, None) \<Rightarrow> (ins, upd, del)))"

definition computeDiff :: "row list \<Rightarrow> snapshot_row list \<Rightarrow> string list \<Rightarrow> diff" where
  "computeDiff sheetRows dbRows columns =
     (let sheetRowsByIndex = map (sheet_data columns) (enumerate 0 sheetRows);
          dbRowsByIndex = map (db_data columns) (enumerate 0 dbRows);
          maxIndex = max (length sheetRows) (length dbRows)
      in case fold (diff_step sheetRowsByIndex dbRowsByIndex) [0..<maxIndex] ([], [], []) of
           (ins, upd, del) \<Rightarrow>
             \<lparr>inserts = ins, updates = upd, deletes = del,
              unchanged = int (length sheetRows) - int (length ins) - int (length upd)\<rparr>)"

section \<open>The snapshot store\<close>

subsection \<open>sanitizeColumnName\<close>

definition js_space :: "char \<Rightarrow> bool" where
  "js_space c = (c \<in> set [CHR '' '', CHR 0x09, CHR 0x0A, CHR 0x0B, CHR 0x0C, CHR 0x0D])"

definition trim :: "string \<Rightarrow> string" where
  "trim s = rev (dropWhile js_space (rev (dropWhile js_space s)))"

definition word_char :: "char \<Rightarrow> bool" where
  "word_char c =
     ((CHR ''a'' \<le> c \<and> c \<le> CHR ''z'') \<or> (CHR ''A'' \<le> c \<and> c \<le> CHR ''Z'')
      \<or> (CHR ''0'' \<le> c \<and> c \<le> CHR ''9'') \<or> c = CHR ''_'')"

fun squeeze_underscores :: "string \<Rightarrow> string" where
  "squeeze_underscores (a # b # s) =
     (if a = CHR ''_'' \<and> b = CHR ''_'' then squeeze_underscores (b # s)
      else a # squeeze_underscores (b # s))"
| "squeeze_underscores s = s"

definition sanitizeColumnName :: "string \<Rightarrow> string" where
  "sanitizeColumnName columnName =
     (let sanitized =
            toLowerCase (squeeze_underscores
              (map (\<lambda>c. if word_char c then c else CHR ''_'') (trim columnName)));
          sanitized =
            (case sanitized of
               c # _ \<Rightarrow> if CHR ''0'' \<le> c \<and> c \<le> CHR ''9'' then ''col_'' @ sanitized else sanitized
             | [] \<Rightarrow> sanitized)
      in if take 63 sanitized = [] then ''unnamed_column'' else take 63 sanitized)"

subsection \<open>The column mapping of applyDiff and storeSnapshot\<close>

fun digits :: "nat \<Rightarrow> string" where
  "digits n =
     (if n < 10 then [char_of (48 + n)] else digits (n div 10) @ [char_of (48 + n mod 10)])"

declare digits.simps [simp del]

definition candidate :: "string \<Rightarrow> nat \<Rightarrow> string" where
  "candidate sanitized counter = sanitized @ ''_'' @ digits counter"

text \<open>
  The \<^verbatim>\<open>while (seenSanitized.has(uniqueSanitized)) counter++\<close> loop ends because the
  decimal numerals of different counters are different names, and only finitely many
  names have been seen.
\<close>

definition digits_value :: "string \<Rightarrow> nat" where
  "digits_value s = foldl (\<lambda>acc c. 10 * acc + (of_char c - 48)) 0 s"

lemma digits_value_digits: "digits_value (digits n) = n"
proof (induction n rule: digits.induct)
  case (1 n)
  show ?case
  proof (cases "n < 10")
    case True
    then show ?thesis
      by (subst digits.simps) (simp add: digits_value_def)
  next
    case False
    with 1 have "digits_value (digits (n div 10)) = n div 10" by simp
    moreover have "(48 + n mod 10) mod 256 = 48 + n mod 10"
      by (rule mod_less) (simp add: less_le_trans[OF add_strict_left_mono[OF pos_mod_bound]])
    ultimately show ?thesis using False
      by (subst digits.simps) (simp add: digits_value_def)
  qed
qed

lemma inj_candidate: "inj (candidate sanitized)"
proof (rule injI)
  fix a b
  assume "candidate sanitized a = candidate sanitized b"
  then have "digits_value (digits a) = digits_value (digits b)"
    by (simp add: candidate_def)
  then show "a = b" by (simp add: digits_value_digits)
qed

lemma finite_seen_counters: "finite {c. candidate sanitized c \<in> set seen}"
  using finite_vimageI[OF finite_set[of seen] inj_candidate[of sanitized]]
  by (simp add: vimage_def)

function unique_name :: "string list \<Rightarrow> string \<Rightarrow> nat \<Rightarrow> string" where
  "unique_name seenSanitized sanitized counter =
     (if candidate sanitized counter \<in> set seenSanitized
      then unique_name seenSanitized sanitized (counter + 1)
      else candidate sanitized counter)"
  by pat_completeness auto

termination
proof (relation "measure (\<lambda>(seen, sanitized, counter).
                   card {c. counter \<le> c \<and> candidate sanitized c \<in> set seen})")
  show "wf (measure (\<lambda>(seen, sanitized, counter).
                   card {c. counter \<le> c \<and> candidate sanitized c \<in> set seen}))"
    by simp
next
  fix seenSanitized :: "string list" and sanitized :: string and counter :: nat
  assume m: "candidate sanitized counter \<in> set seenSanitized"
  let ?A = "{c. counter + 1 \<le> c \<and> candidate sanitized c \<in> set seenSanitized}"
  let ?B = "{c. counter \<le> c \<and> candidate sanitized c \<in> set seenSanitized}"
  have "finite ?B"
    by (rule finite_subset[OF _ finite_seen_counters[of sanitized seenSanitized]]) auto
  moreover have "counter \<in> ?B" and "counter \<notin> ?A" and "?A \<subseteq> ?B"
    using m by auto
  then have "?A \<subset> ?B" by blast
  ultimately have "card ?A < card ?B" by (rule psubset_card_mono)
  then show "((seenSanitized, sanitized, counter + 1), (seenSanitized, sanitized, counter))
      \<in> measure (\<lambda>(seen, sanitized, counter).
                   card {c. counter \<le> c \<and> candidate sanitized c \<in> set seen})"
    by simp
qed

declare unique_name.simps [simp del]

definition map_column :: "string \<Rightarrow> string list \<times> string list \<Rightarrow> string list \<times> string list" where
  "map_column originalCol acc =
     (case acc of (sanitizedColumns, seenSanitized) \<Rightarrow>
        (let sanitized = sanitizeColumnName originalCol
         in if sanitized \<in> set seenSanitized
            then (let uniqueSanitized = unique_name seenSanitized sanitized 1
                  in (sanitizedColumns @ [uniqueSanitized], seenSanitized @ [uniqueSanitized]))
            else (sanitizedColumns @ [sanitized], seenSanitized @ [sanitized])))"

definition sanitized_columns :: "string list \<Rightarrow> string list" where
  "sanitized_columns columns = fst (fold map_column columns ([], []))"

subsection \<open>The table and the statements sent to it\<close>

text \<open>
  The store is the one table named by \<^verbatim>\<open>tableName\<close>: its data columns (all columns except
  the seven system columns), its rows with tombstones included, and the next value of the
  \<^verbatim>\<open>SERIAL\<close> sequence of \<^verbatim>\<open>id\<close>.  The columns \<^verbatim>\<open>created_at\<close> and \<^verbatim>\<open>updated_at\<close> are never read
  by the snapshot functions and are left out.  A timestamp is a number.
\<close>

definition system_columns :: "string list" where
  "system_columns =
     [''id'', ''created_at'', ''updated_at'', ''row_hash'', ''revision'', ''source'', ''deleted_at'']"

record entry =
  e_id :: int
  e_row_hash :: string
  e_revision :: int
  e_source :: string
  e_deleted_at :: "nat option"
  e_data :: "(string \<times> cell) list"

record table =
  t_columns :: "string list"
  t_rows :: "entry list"
  t_serial :: int

text \<open>
  Every call of \<^verbatim>\<open>query\<close>, \<^verbatim>\<open>connection.query\<close>, \<^verbatim>\<open>getConnection\<close> and of the transaction
  functions sends one statement.  Whether the server refuses a statement (the call then
  throws) is not decided by the repository; it is the parameter \<open>rejects\<close> of the
  functions below.  A refused statement changes nothing.
\<close>

datatype stmt =
    Connect
  | Begin
  | Commit
  | Rollback
  | SelectColumns
  | SelectActive "string list"
  | Update "string list" string int string "cell list" int
  | Insert "string list" string int string "cell list"
  | SoftDeleteById int int
  | SoftDeleteByHash int string

datatype store_error =
    SchemaMismatch "string list"
  | StorageError stmt

definition dbColumnNames :: "table \<Rightarrow> string list" where
  "dbColumnNames tbl = filter (\<lambda>c. c \<notin> set system_columns) (t_columns tbl)"

definition active :: "entry \<Rightarrow> bool" where
  "active e = (e_deleted_at e = None)"

text \<open>
  What a statement does to one stored row (the \<^verbatim>\<open>UPDATE ... WHERE\<close> statements change the
  rows that match), and the rows it adds (\<^verbatim>\<open>INSERT\<close>: the id comes from the sequence, the
  columns not named get their default, \<^verbatim>\<open>NULL\<close>).  \<open>now\<close> is \<^verbatim>\<open>CURRENT_TIMESTAMP\<close>.
\<close>

fun change :: "nat \<Rightarrow> stmt \<Rightarrow> entry \<Rightarrow> entry" where
  "change now (Update cols hash revision src vals dbId) e =
     (if e_id e = dbId \<and> active e
      then e\<lparr>e_row_hash := hash, e_revision := revision, e_source := src,
             e_data := fold (\<lambda>cv. AList.update (fst cv) (snd cv)) (zip cols vals) (e_data e)\<rparr>
      else e)"
| "change now (SoftDeleteById revision dbId) e =
     (if e_id e = dbId \<and> active e
      then e\<lparr>e_deleted_at := Some now, e_revision := revision\<rparr> else e)"
| "change now (SoftDeleteByHash revision hash) e =
     (if e_row_hash e = hash \<and> active e
      then e\<lparr>e_deleted_at := Some now, e_revision := revision\<rparr> else e)"
| "change now _ e = e"

fun added :: "stmt \<Rightarrow> table \<Rightarrow> entry list" where
  "added (Insert cols hash revision src vals) tbl =
     [\<lparr>e_id = t_serial tbl, e_row_hash = hash, e_revision = revision, e_source = src,
       e_deleted_at = None,
       e_data = map (\<lambda>c. (c, case map_of (zip cols vals) c of Some v \<Rightarrow> v | None \<Rightarrow> None))
                    (t_columns tbl)\<rparr>]"
| "added _ tbl = []"

definition exec :: "nat \<Rightarrow> stmt \<Rightarrow> table \<Rightarrow> table" where
  "exec now s tbl =
     tbl\<lparr>t_rows := map (change now s) (t_rows tbl) @ added s tbl,
         t_serial := t_serial tbl + int (length (added s tbl))\<rparr>"

declare change.simps [simp del] added.simps [simp del]

subsection \<open>getSnapshot\<close>

definition snapshot_cell :: "string list \<Rightarrow> entry \<Rightarrow> string \<Rightarrow> cell" where
  "snapshot_cell names e originalCol =
     (case find (\<lambda>dbCol. dbCol = sanitizeColumnName originalCol) names of
        Some dbCol \<Rightarrow>
          (case map_of (e_data e) dbCol of
             Some (Some v) \<Rightarrow> if v \<noteq> [] then Some v else Some []
           | _ \<Rightarrow> Some [])
      | None \<Rightarrow> Some [])"

definition snapshot_of :: "string list \<Rightarrow> string list \<Rightarrow> entry \<Rightarrow> snapshot_row" where
  "snapshot_of names columns e =
     \<lparr>sr_id = Some (e_id e), sr_row_hash = Some (e_row_hash e), sr_row_id = None,
      sr_revision = Some (e_revision e), sr_source = Some (e_source e),
      sr_deleted_at = e_deleted_at e,
      sr_cells = fold (\<lambda>originalCol rowObj.
                    AList.update originalCol (snapshot_cell names e originalCol) rowObj) columns []\<rparr>"

definition select_active :: "table \<Rightarrow> entry list" where
  "select_active tbl = sort_key e_id (filter active (t_rows tbl))"

definition getSnapshot ::
  "(stmt \<Rightarrow> bool) \<Rightarrow> table \<Rightarrow> string list \<Rightarrow> store_error + snapshot_row list" where
  "getSnapshot rejects tbl columns =
     (if rejects SelectColumns then Inl (StorageError SelectColumns)
      else if rejects (SelectActive (dbColumnNames tbl))
        then Inl (StorageError (SelectActive (dbColumnNames tbl)))
      else Inr (map (snapshot_of (dbColumnNames tbl) columns) (select_active tbl)))"

subsection \<open>applyDiff\<close>

record counts =
  inserted :: nat
  updated :: nat
  deleted :: nat
  skipped :: nat

record seed_counts =
  seed_inserted :: nat
  seed_skipped :: nat

text \<open>
  The state of one call: the table as the open transaction sees it, the four counters,
  and the statements sent so far.
\<close>

record run =
  r_table :: table
  r_inserted :: nat
  r_updated :: nat
  r_deleted :: nat
  r_skipped :: nat
  r_issued :: "stmt list"

text \<open>
  What a call leaves behind: the value returned or the error thrown, the table after the
  call, and every statement it sent.
\<close>

record 'a outcome =
  result :: "store_error + 'a"
  store :: table
  issued :: "stmt list"

definition mutation :: "stmt \<Rightarrow> bool" where
  "mutation s =
     (case s of Update _ _ _ _ _ _ \<Rightarrow> True | Insert _ _ _ _ _ \<Rightarrow> True
      | SoftDeleteById _ _ \<Rightarrow> True | SoftDeleteByHash _ _ \<Rightarrow> True | _ \<Rightarrow> False)"

definition data_values :: "string list \<Rightarrow> row \<Rightarrow> cell list" where
  "data_values columns r =
     map (\<lambda>originalCol.
            case get_prop r originalCol of
              Null \<Rightarrow> None | Undefined \<Rightarrow> None | Str s \<Rightarrow> Some (js_String (Str s)))
         columns"

definition truthy_id :: "int option \<Rightarrow> bool" where
  "truthy_id dbId = (case dbId of None \<Rightarrow> False | Some i \<Rightarrow> i \<noteq> 0)"

definition send :: "(stmt \<Rightarrow> bool) \<Rightarrow> nat \<Rightarrow> stmt \<Rightarrow> run \<Rightarrow> run option" where
  "send rejects now s r =
     (if rejects s then None
      else Some (r\<lparr>r_table := exec now s (r_table r), r_issued := r_issued r @ [s]\<rparr>))"

definition caught :: "stmt \<Rightarrow> run \<Rightarrow> run" where
  "caught s r = r\<lparr>r_issued := r_issued r @ [s], r_skipped := r_skipped r + 1\<rparr>"

definition apply_update ::
  "(stmt \<Rightarrow> bool) \<Rightarrow> nat \<Rightarrow> string list \<Rightarrow> string list \<Rightarrow> int \<Rightarrow> update_item \<Rightarrow> run \<Rightarrow> run" where
  "apply_update rejects now columns sanitizedColumns currentRevision item r =
     (if \<not> truthy_id (upd_dbId item) then r\<lparr>r_skipped := r_skipped r + 1\<rparr>
      else
        (let dataValues = data_values columns (upd_row item);
             s = Update sanitizedColumns (upd_hash item) currentRevision ''sheet'' dataValues
                   (the (upd_dbId item))
         in case send rejects now s r of
              Some r' \<Rightarrow> r'\<lparr>r_updated := r_updated r' + 1\<rparr>
            | None \<Rightarrow> caught s r))"

definition apply_insert ::
  "(stmt \<Rightarrow> bool) \<Rightarrow> nat \<Rightarrow> string list \<Rightarrow> string list \<Rightarrow> int \<Rightarrow> insert_item \<Rightarrow> run \<Rightarrow> run" where
  "apply_insert rejects now columns sanitizedColumns currentRevision item r =
     (let dataValues = data_values columns (ins_row item);
          s = Insert sanitizedColumns (ins_hash item) currentRevision ''sheet'' dataValues
      in case send rejects now s r of
           Some r' \<Rightarrow> r'\<lparr>r_inserted := r_inserted r' + 1\<rparr>
         | None \<Rightarrow> caught s r)"

definition apply_delete ::
  "(stmt \<Rightarrow> bool) \<Rightarrow> nat \<Rightarrow> int \<Rightarrow> delete_item \<Rightarrow> run \<Rightarrow> run" where
  "apply_delete rejects now currentRevision item r =
     (let s = (if truthy_id (del_dbId item)
               then SoftDeleteById currentRevision (the (del_dbId item))
               else SoftDeleteByHash currentRevision (del_hash item))
      in case send rejects now s r of
           Some r' \<Rightarrow> r'\<lparr>r_deleted := r_deleted r' + 1\<rparr>
         | None \<Rightarrow> caught s r)"

text \<open>
  The outer \<^verbatim>\<open>catch\<close>: roll back and throw the error again (or the error of the rollback,
  when that is refused).  Nothing of the transaction stays in the table.
\<close>

definition rolled_back ::
  "(stmt \<Rightarrow> bool) \<Rightarrow> table \<Rightarrow> stmt list \<Rightarrow> store_error \<Rightarrow> 'a outcome" where
  "rolled_back rejects tbl sent err =
     \<lparr>result = Inl (if rejects Rollback then StorageError Rollback else err),
      store = tbl, issued = sent @ [Rollback]\<rparr>"

definition start :: "table \<Rightarrow> run" where
  "start tbl = \<lparr>r_table = tbl, r_inserted = 0, r_updated = 0, r_deleted = 0, r_skipped = 0,
                r_issued = [Connect, Begin, SelectColumns]\<rparr>"

text \<open>The three loops, in the order of the source: updates, inserts, deletes.\<close>

definition apply_rows ::
  "(stmt \<Rightarrow> bool) \<Rightarrow> nat \<Rightarrow> string list \<Rightarrow> string list \<Rightarrow> diff \<Rightarrow> int \<Rightarrow> run \<Rightarrow> run" where
  "apply_rows rejects now columns sanitizedColumns d currentRevision r0 =
     (let r1 = fold (apply_update rejects now columns sanitizedColumns currentRevision)
                 (updates d) r0;
          r2 = fold (apply_insert rejects now columns sanitizedColumns currentRevision)
                 (inserts d) r1
      in fold (apply_delete rejects now currentRevision) (deletes d) r2)"

text \<open>\<^verbatim>\<open>await connection.commit()\<close> and the returned counts.\<close>

definition commit :: "(stmt \<Rightarrow> bool) \<Rightarrow> table \<Rightarrow> run \<Rightarrow> counts outcome" where
  "commit rejects tbl r =
     (if rejects Commit
      then rolled_back rejects tbl (r_issued r @ [Commit]) (StorageError Commit)
      else \<lparr>result = Inr \<lparr>inserted = r_inserted r, updated = r_updated r,
                           deleted = r_deleted r, skipped = r_skipped r\<rparr>,
            store = r_table r, issued = r_issued r @ [Commit]\<rparr>)"

definition applyDiff ::
  "(stmt \<Rightarrow> bool) \<Rightarrow> nat \<Rightarrow> table \<Rightarrow> string list \<Rightarrow> diff \<Rightarrow> int \<Rightarrow> counts outcome" where
  "applyDiff rejects now tbl columns d currentRevision =
     (if rejects Connect
      then \<lparr>result = Inl (StorageError Connect), store = tbl, issued = [Connect]\<rparr>
      else if rejects Begin
      then rolled_back rejects tbl [Connect, Begin] (StorageError Begin)
      else
        (let sanitizedColumns = sanitized_columns columns
         in if rejects SelectColumns
            then rolled_back rejects tbl [Connect, Begin, SelectColumns] (StorageError SelectColumns)
            else
              (let missingColumns =
                     filter (\<lambda>col. col \<notin> set (dbColumnNames tbl)) sanitizedColumns
               in if missingColumns \<noteq> []
                  then rolled_back rejects tbl [Connect, Begin, SelectColumns]
                         (SchemaMismatch missingColumns)
                  else commit rejects tbl
                         (apply_rows rejects now columns sanitizedColumns d currentRevision
                            (start tbl)))))"

subsection \<open>storeSnapshot\<close>

text \<open>The hash function is the fourth argument of \<^verbatim>\<open>storeSnapshot\<close>.\<close>

definition seed_row ::
  "(stmt \<Rightarrow> bool) \<Rightarrow> nat \<Rightarrow> string list \<Rightarrow> string list \<Rightarrow> (row \<Rightarrow> string list \<Rightarrow> string)
     \<Rightarrow> row \<Rightarrow> run \<Rightarrow> run" where
  "seed_row rejects now columns sanitizedColumns hashFn r_in r =
     (let hash = hashFn r_in columns;
          dataValues = data_values columns r_in;
          s = Insert sanitizedColumns hash 1 ''sheet'' dataValues
      in case send rejects now s r of
           Some r' \<Rightarrow> r'\<lparr>r_inserted := r_inserted r' + 1\<rparr>
         | None \<Rightarrow> caught s r)"

definition commit_seed :: "(stmt \<Rightarrow> bool) \<Rightarrow> table \<Rightarrow> run \<Rightarrow> seed_counts outcome" where
  "commit_seed rejects tbl r =
     (if rejects Commit
      then rolled_back rejects tbl (r_issued r @ [Commit]) (StorageError Commit)
      else \<lparr>result = Inr \<lparr>seed_inserted = r_inserted r, seed_skipped = r_skipped r\<rparr>,
            store = r_table r, issued = r_issued r @ [Commit]\<rparr>)"

definition storeSnapshot ::
  "(stmt \<Rightarrow> bool) \<Rightarrow> nat \<Rightarrow> table \<Rightarrow> string list \<Rightarrow> row list
     \<Rightarrow> (row \<Rightarrow> string list \<Rightarrow> string) \<Rightarrow> seed_counts outcome" where
  "storeSnapshot rejects now tbl columns data hashFn =
     (if rejects Connect
      then \<lparr>result = Inl (StorageError Connect), store = tbl, issued = [Connect]\<rparr>
      else if rejects Begin
      then rolled_back rejects tbl [Connect, Begin] (StorageError Begin)
      else
        (let sanitizedColumns = sanitized_columns columns
         in if rejects SelectColumns
            then rolled_back rejects tbl [Connect, Begin, SelectColumns] (StorageError SelectColumns)
            else
              (let missingColumns =
                     filter (\<lambda>col. col \<notin> set (dbColumnNames tbl)) sanitizedColumns
               in if missingColumns \<noteq> []
                  then rolled_back rejects tbl [Connect, Begin, SelectColumns]
                         (SchemaMismatch missingColumns)
                  else commit_seed rejects tbl
                         (fold (seed_row rejects now columns sanitizedColumns hashFn) data
                            (start tbl)))))"

section \<open>The sync lock\<close>

text \<open>
  \<^verbatim>\<open>syncLocks\<close> maps a sheet id to the promise created when the lock was taken.  A promise
  is known by a number; \<open>resolved\<close> holds the promises whose \<^verbatim>\<open>resolve\<close> has been called and
  \<open>fresh\<close> is the next unused number.
\<close>

record locks =
  syncLocks :: "string \<rightharpoonup> nat"
  resolved :: "nat set"
  fresh :: nat

datatype thrown = Error string | Value | TypeError

datatype release = ReleaseFn string nat

definition isSyncInProgress :: "string \<Rightarrow> locks \<Rightarrow> bool" where
  "isSyncInProgress sheetId st = (syncLocks st sheetId \<noteq> None)"

definition acquireSyncLock :: "string \<Rightarrow> locks \<Rightarrow> (thrown + release) \<times> locks" where
  "acquireSyncLock sheetId st =
     (if syncLocks st sheetId \<noteq> None
      then (Inl (Error (''Sync already in progress for sheet '' @ sheetId)), st)
      else
        (let lockPromise = fresh st
         in (Inr (ReleaseFn sheetId lockPromise),
             st\<lparr>syncLocks := (syncLocks st)(sheetId \<mapsto> lockPromise), fresh := fresh st + 1\<rparr>)))"

fun call_release :: "release \<Rightarrow> locks \<Rightarrow> locks" where
  "call_release (ReleaseFn sheetId lockPromise) st =
     st\<lparr>syncLocks := (syncLocks st)(sheetId := None), resolved := insert lockPromise (resolved st)\<rparr>"

text \<open>
  \<^verbatim>\<open>waitForSync\<close> suspends until the promise or the timer settles.  What the rest of the
  program does to the locks in the meantime is the parameter \<open>others\<close>; the wait ended by
  the timer when the promise is still unresolved afterwards, and the entry is then deleted.
\<close>

definition waitForSync :: "string \<Rightarrow> nat \<Rightarrow> (locks \<Rightarrow> locks) \<Rightarrow> locks \<Rightarrow> locks" where
  "waitForSync sheetId timeoutMs others st =
     (case syncLocks st sheetId of
        None \<Rightarrow> st
      | Some lockPromise \<Rightarrow>
          (let st' = others st
           in if lockPromise \<in> resolved st' then st'
              else st'\<lparr>syncLocks := (syncLocks st')(sheetId := None)\<rparr>))"

text \<open>
  The \<^verbatim>\<open>catch\<close> block of \<^verbatim>\<open>withSyncLock\<close>.  Reading \<^verbatim>\<open>error.message.includes\<close> on a thrown
  value without a message throws a \<^verbatim>\<open>TypeError\<close> in its place.
\<close>

definition on_error :: "string \<Rightarrow> (locks \<Rightarrow> locks) \<Rightarrow> thrown \<Rightarrow> locks \<Rightarrow> thrown \<times> locks" where
  "on_error sheetId others error st =
     (case error of
        Error message \<Rightarrow>
          if str_includes message ''already in progress''
          then (error, waitForSync sheetId 5000 others st)
          else (error, st)
      | _ \<Rightarrow> (TypeError, st))"

text \<open>
  \<^verbatim>\<open>syncFunction\<close> runs on the locks (whatever it and the tasks interleaved with it do to
  them) and returns a value or throws.
\<close>

definition withSyncLock ::
  "string \<Rightarrow> (locks \<Rightarrow> (thrown + 'a) \<times> locks) \<Rightarrow> (locks \<Rightarrow> locks) \<Rightarrow> locks
     \<Rightarrow> (thrown + 'a) \<times> locks" where
  "withSyncLock sheetId syncFunction others st =
     (case acquireSyncLock sheetId st of
        (Inl error, st1) \<Rightarrow>
          (case on_error sheetId others error st1 of (error', st2) \<Rightarrow> (Inl error', st2))
      | (Inr releaseLock, st1) \<Rightarrow>
          (case syncFunction st1 of
             (Inr r, st2) \<Rightarrow> (Inr r, call_release releaseLock st2)
           | (Inl error, st2) \<Rightarrow>
               (case on_error sheetId others error st2 of
                  (error', st3) \<Rightarrow> (Inl error', call_release releaseLock st3))))"

section \<open>Notions used to state the properties\<close>

text \<open>
  An entry is referenced by a diff when an update or a delete item names its id, or when
  a delete item without a usable id names its hash (the fallback of the delete loop).
\<close>

definition referenced :: "diff \<Rightarrow> entry \<Rightarrow> bool" where
  "referenced d e =
     ((\<exists>item\<in>set (updates d). upd_dbId item = Some (e_id e))
      \<or> (\<exists>item\<in>set (deletes d).
            del_dbId item = Some (e_id e)
            \<or> (\<not> truthy_id (del_dbId item) \<and> del_hash item = e_row_hash e)))"

text \<open>
  \<^verbatim>\<open>id SERIAL PRIMARY KEY\<close>: the ids in the table are pairwise different and below the next
  value of the sequence.
\<close>

definition table_ok :: "table \<Rightarrow> bool" where
  "table_ok tbl =
     (distinct (map e_id (t_rows tbl)) \<and> (\<forall>e\<in>set (t_rows tbl). e_id e < t_serial tbl))"

text \<open>Later writes to the store: any sequence of calls of the two writing functions.\<close>

datatype call =
    ApplyDiff "stmt \<Rightarrow> bool" nat "string list" diff int
  | StoreSnapshot "stmt \<Rightarrow> bool" nat "string list" "row list" "row \<Rightarrow> string list \<Rightarrow> string"

fun after_calls :: "call list \<Rightarrow> table \<Rightarrow> table" where
  "after_calls [] tbl = tbl"
| "after_calls (ApplyDiff rejects now columns d currentRevision # calls) tbl =
     after_calls calls (store (applyDiff rejects now tbl columns d currentRevision))"
| "after_calls (StoreSnapshot rejects now columns data hashFn # calls) tbl =
     after_calls calls (store (storeSnapshot rejects now tbl columns data hashFn))"


text \<open>A statement that writes rows carries the revision \<open>N\<close>.\<close>

definition stamped :: "int \<Rightarrow> stmt \<Rightarrow> bool" where
  "stamped N s =
     (case s of
        Update _ _ revision _ _ _ \<Rightarrow> revision = N
      | Insert _ _ revision _ _ \<Rightarrow> revision = N
      | SoftDeleteById revision _ \<Rightarrow> revision = N
      | SoftDeleteByHash revision _ \<Rightarrow> revision = N
      | _ \<Rightarrow> True)"

text \<open>
  The id \<open>i\<close> is in the table, has been handed out by the sequence, and every row that
  carries it is a tombstone.
\<close>

definition tombstoned :: "int \<Rightarrow> table \<Rightarrow> bool" where
  "tombstoned i tbl =
     (i \<in> e_id ` set (t_rows tbl) \<and> i < t_serial tbl
      \<and> (\<forall>e\<in>set (t_rows tbl). e_id e = i \<longrightarrow> \<not> active e))"

text \<open>
  During the pass with revision \<open>N\<close> at time \<open>now\<close>: every row that carries the id \<open>i\<close> is
  still active or has been made a tombstone by this pass.
\<close>

definition closing :: "int \<Rightarrow> nat \<Rightarrow> int \<Rightarrow> table \<Rightarrow> bool" where
  "closing N now i tbl =
     (i \<in> e_id ` set (t_rows tbl) \<and> i < t_serial tbl
      \<and> (\<forall>e\<in>set (t_rows tbl). e_id e = i \<longrightarrow>
            active e \<or> (e_deleted_at e = Some now \<and> e_revision e = N)))"

section \<open>Properties of the diff engine\<close>

subsection \<open>The canonical text of a row\<close>

lemma normalized_of_cong:
  assumes "\<forall>c\<in>set columns. get_prop r1 c = get_prop r2 c"
  shows "normalized_of r1 columns = normalized_of r2 columns"
  unfolding normalized_of_def using assms by (intro fold_cong) auto










text \<open>
  C2.  Two rows that give every listed column the same value have the same hash, in
  whatever order their properties were inserted.
\<close>

theorem computeRowHash_deterministic:
  assumes "\<forall>c\<in>set columns. get_prop r1 c = get_prop r2 c"
  shows "computeRowHash r1 columns = computeRowHash r2 columns"
  unfolding computeRowHash_def normalizedString_def
  using normalized_of_cong[OF assms] by simp

theorem computeRowHash_deterministic_witness:
  "get_prop [(''name'', Some ''Al''), (''age'', Some ''30'')] ''name''
     = get_prop [(''age'', Some ''30''), (''name'', Some ''Al'')] ''name''
   \<and> get_prop [(''name'', Some ''Al''), (''age'', Some ''30'')] ''age''
     = get_prop [(''age'', Some ''30''), (''name'', Some ''Al'')] ''age''
   \<and> computeRowHash [(''name'', Some ''Al''), (''age'', Some ''30'')] [''name'', ''age'']
       = computeRowHash [(''age'', Some ''30''), (''name'', Some ''Al'')] [''name'', ''age'']"
proof -
  have h: "\<forall>c\<in>set [''name'', ''age''].
       get_prop [(''name'', Some ''Al''), (''age'', Some ''30'')] c
         = get_prop [(''age'', Some ''30''), (''name'', Some ''Al'')] c"
    by (simp add: get_prop_def)
  from computeRowHash_deterministic[OF h] show ?thesis
    by (simp add: get_prop_def)
qed




subsection \<open>Completeness of the positional diff\<close>

lemma diff_fold_indices:
  "case fold (diff_step S D) [0..<n] ([], [], []) of (ins, upd, del) \<Rightarrow>
      map ins_index ins = filter (\<lambda>i. i < length S \<and> \<not> i < length D) [0..<n]
    \<and> map upd_index upd
        = filter (\<lambda>i. i < length S \<and> i < length D \<and> sd_hash (S ! i) \<noteq> dd_hash (D ! i)) [0..<n]
    \<and> map del_index del = filter (\<lambda>i. \<not> i < length S \<and> i < length D) [0..<n]"
proof (induction n)
  case 0
  then show ?case by simp
next
  case (Suc n)
  obtain ins upd del where f: "fold (diff_step S D) [0..<n] ([], [], []) = (ins, upd, del)"
    by (cases "fold (diff_step S D) [0..<n] ([], [], [])") auto
  from Suc f
  have ih: "map ins_index ins = filter (\<lambda>i. i < length S \<and> \<not> i < length D) [0..<n]"
    "map upd_index upd
        = filter (\<lambda>i. i < length S \<and> i < length D \<and> sd_hash (S ! i) \<noteq> dd_hash (D ! i)) [0..<n]"
    "map del_index del = filter (\<lambda>i. \<not> i < length S \<and> i < length D) [0..<n]"
    by simp_all
  have step: "fold (diff_step S D) [0..<Suc n] ([], [], []) = diff_step S D n (ins, upd, del)"
    by (simp add: f)
  show ?case
    unfolding step using ih by (auto simp add: diff_step_def map_get_def)
qed

lemma length_filter_range:
  "length (filter (\<lambda>i. \<not> i < a \<and> i < b) [0..<m]) = min m b - min m a"
  by (induction m) auto

lemma distinct_filters:
  assumes "\<And>i. \<not> (P i \<and> Q i)" "\<And>i. \<not> (P i \<and> R i)" "\<And>i. \<not> (Q i \<and> R i)" "distinct xs"
  shows "distinct (filter P xs @ filter Q xs @ filter R xs)"
  using assms by auto

text \<open>
  C1.  With \<open>n\<close> the larger of the two lengths, the positions listed in inserts, updates
  and deletes are pairwise different positions below \<open>n\<close> (no position is classified
  twice), \<open>unchanged\<close> is the number of positions below \<open>n\<close> that are in none of the three
  lists, and the four counts add up to \<open>n\<close>.
\<close>

theorem computeDiff_complete:
  "(let d = computeDiff sheetRows dbRows columns;
        n = max (length sheetRows) (length dbRows);
        classified = map ins_index (inserts d) @ map upd_index (updates d)
                       @ map del_index (deletes d)
    in int (length (inserts d)) + int (length (updates d)) + int (length (deletes d))
         + unchanged d = int n
     \<and> distinct classified
     \<and> set classified \<subseteq> {..<n}
     \<and> unchanged d = int (card ({..<n} - set classified)))"
proof -
  define S where "S = map (sheet_data columns) (enumerate 0 sheetRows)"
  define D where "D = map (db_data columns) (enumerate 0 dbRows)"
  define n where "n = max (length sheetRows) (length dbRows)"
  obtain ins upd del where f: "fold (diff_step S D) [0..<n] ([], [], []) = (ins, upd, del)"
    by (cases "fold (diff_step S D) [0..<n] ([], [], [])") auto
  have d: "computeDiff sheetRows dbRows columns
      = \<lparr>inserts = ins, updates = upd, deletes = del,
         unchanged = int (length sheetRows) - int (length ins) - int (length upd)\<rparr>"
    unfolding computeDiff_def Let_def S_def[symmetric] D_def[symmetric] n_def[symmetric] f by simp
  have lS: "length S = length sheetRows" and lD: "length D = length dbRows"
    by (simp_all add: S_def D_def)
  from diff_fold_indices[of S D n] f
  have i: "map ins_index ins = filter (\<lambda>i. i < length S \<and> \<not> i < length D) [0..<n]"
    and u: "map upd_index upd
        = filter (\<lambda>i. i < length S \<and> i < length D \<and> sd_hash (S ! i) \<noteq> dd_hash (D ! i)) [0..<n]"
    and dl: "map del_index del = filter (\<lambda>i. \<not> i < length S \<and> i < length D) [0..<n]"
    by simp_all
  have "length del = length (map del_index del)" by simp
  also have "\<dots> = n - length sheetRows"
    unfolding dl length_filter_range lS lD n_def by simp
  finally have ldel: "length del = n - length sheetRows" .
  have le: "length sheetRows \<le> n" by (simp add: n_def)
  let ?cl = "map ins_index ins @ map upd_index upd @ map del_index del"
  have dist: "distinct ?cl"
    unfolding i u dl by (intro distinct_filters) auto
  have sub: "set ?cl \<subseteq> {..<n}"
    unfolding i u dl by auto
  have total: "int (length ins) + int (length upd) + int (length del)
      + (int (length sheetRows) - int (length ins) - int (length upd)) = int n"
    using ldel le by simp
  have c: "card (set ?cl) = length ?cl" using dist by (rule distinct_card)
  then have "card ({..<n} - set ?cl) = n - (length ins + length upd + length del)"
    using sub by (simp add: card_Diff_subset)
  moreover have "length ins + length upd + length del \<le> n"
    using card_mono[OF _ sub] c by simp
  ultimately have un: "int (length sheetRows) - int (length ins) - int (length upd)
      = int (card ({..<n} - set ?cl))"
    using total by simp
  show ?thesis
    unfolding Let_def d n_def[symmetric] using total dist sub un by simp
qed

theorem computeDiff_complete_witness:
  "(let d = computeDiff
              [[(''name'', Some ''Al'')], [(''name'', Some ''Bo'')]]
              [\<lparr>sr_id = Some 1, sr_row_hash = None, sr_row_id = None, sr_revision = Some 1,
                sr_source = Some ''sheet'', sr_deleted_at = None,
                sr_cells = [(''name'', Some ''Al'')]\<rparr>]
              [''name'']
    in int (length (inserts d)) + int (length (updates d)) + int (length (deletes d))
         + unchanged d = 2
     \<and> map ins_index (inserts d) = [1] \<and> updates d = [] \<and> deletes d = []
     \<and> unchanged d = 1)"
  using computeDiff_complete
    [of "[[(''name'', Some ''Al'')], [(''name'', Some ''Bo'')]]"
        "[\<lparr>sr_id = Some 1, sr_row_hash = None, sr_row_id = None, sr_revision = Some 1,
                sr_source = Some ''sheet'', sr_deleted_at = None,
                sr_cells = [(''name'', Some ''Al'')]\<rparr>]"
        "[''name'']"]
  by (simp add: computeDiff_def Let_def diff_step_def map_get_def sheet_data_def db_data_def
        or_else_def enumerate_eq_zip computeRowHash_def)


section \<open>Properties of the snapshot store\<close>

subsection \<open>Schema drift\<close>

lemma rolled_back_simps [simp]:
  "store (rolled_back rejects tbl sent err :: 'a outcome) = tbl"
  "issued (rolled_back rejects tbl sent err :: 'a outcome) = sent @ [Rollback]"
  "result (rolled_back rejects tbl sent err :: 'a outcome)
     = Inl (if rejects Rollback then StorageError Rollback else err)"
  by (simp_all add: rolled_back_def)

text \<open>
  C4.  When a sanitized column is missing from the table's data columns, applyDiff and
  storeSnapshot both throw, leave the table as it was, and have sent no statement that
  writes a row; the error is the schema mismatch whenever the server did not already refuse
  the connection, \<^verbatim>\<open>BEGIN\<close>, the column query or the rollback.
\<close>

theorem schema_mismatch_fails_first:
  assumes "\<exists>c\<in>set (sanitized_columns columns). c \<notin> set (dbColumnNames tbl)"
  shows "(let out = applyDiff rejects now tbl columns d currentRevision;
              missing = filter (\<lambda>col. col \<notin> set (dbColumnNames tbl)) (sanitized_columns columns)
          in (\<exists>err. result out = Inl err
                \<and> (\<not> rejects Connect \<and> \<not> rejects Begin \<and> \<not> rejects SelectColumns
                      \<and> \<not> rejects Rollback \<longrightarrow> err = SchemaMismatch missing))
             \<and> store out = tbl \<and> (\<forall>s\<in>set (issued out). \<not> mutation s))
       \<and> (let out = storeSnapshot rejects now tbl columns data hashFn;
              missing = filter (\<lambda>col. col \<notin> set (dbColumnNames tbl)) (sanitized_columns columns)
          in (\<exists>err. result out = Inl err
                \<and> (\<not> rejects Connect \<and> \<not> rejects Begin \<and> \<not> rejects SelectColumns
                      \<and> \<not> rejects Rollback \<longrightarrow> err = SchemaMismatch missing))
             \<and> store out = tbl \<and> (\<forall>s\<in>set (issued out). \<not> mutation s))"
proof -
  from assms have m: "filter (\<lambda>col. col \<notin> set (dbColumnNames tbl)) (sanitized_columns columns) \<noteq> []"
    by (simp add: filter_empty_conv)
  show ?thesis
    using m by (simp add: applyDiff_def storeSnapshot_def Let_def mutation_def)
qed

theorem schema_mismatch_fails_first_witness:
  "''age'' \<in> set (sanitized_columns [''name'', ''age''])
   \<and> ''age'' \<notin> set (dbColumnNames \<lparr>t_columns = [''name''], t_rows = [], t_serial = 1\<rparr>)
   \<and> result (applyDiff (\<lambda>s. False) 5 \<lparr>t_columns = [''name''], t_rows = [], t_serial = 1\<rparr>
         [''name'', ''age'']
         \<lparr>inserts = [\<lparr>ins_row = [(''name'', Some ''Al''), (''age'', Some ''30'')], ins_hash = ''h'',
                      ins_rowId = ''h'', ins_index = 0\<rparr>],
          updates = [], deletes = [], unchanged = 0\<rparr> 2)
       = Inl (SchemaMismatch [''age''])
   \<and> store (applyDiff (\<lambda>s. False) 5 \<lparr>t_columns = [''name''], t_rows = [], t_serial = 1\<rparr>
         [''name'', ''age'']
         \<lparr>inserts = [\<lparr>ins_row = [(''name'', Some ''Al''), (''age'', Some ''30'')], ins_hash = ''h'',
                      ins_rowId = ''h'', ins_index = 0\<rparr>],
          updates = [], deletes = [], unchanged = 0\<rparr> 2)
       = \<lparr>t_columns = [''name''], t_rows = [], t_serial = 1\<rparr>
   \<and> issued (applyDiff (\<lambda>s. False) 5 \<lparr>t_columns = [''name''], t_rows = [], t_serial = 1\<rparr>
         [''name'', ''age'']
         \<lparr>inserts = [\<lparr>ins_row = [(''name'', Some ''Al''), (''age'', Some ''30'')], ins_hash = ''h'',
                      ins_rowId = ''h'', ins_index = 0\<rparr>],
          updates = [], deletes = [], unchanged = 0\<rparr> 2)
       = [Connect, Begin, SelectColumns, Rollback]
   \<and> result (storeSnapshot (\<lambda>s. False) 5 \<lparr>t_columns = [''name''], t_rows = [], t_serial = 1\<rparr>
         [''name'', ''age''] [[(''name'', Some ''Al''), (''age'', Some ''30'')]] computeRowHash)
       = Inl (SchemaMismatch [''age''])
   \<and> store (storeSnapshot (\<lambda>s. False) 5 \<lparr>t_columns = [''name''], t_rows = [], t_serial = 1\<rparr>
         [''name'', ''age''] [[(''name'', Some ''Al''), (''age'', Some ''30'')]] computeRowHash)
       = \<lparr>t_columns = [''name''], t_rows = [], t_serial = 1\<rparr>"
proof -
  have sc: "sanitized_columns [''name'', ''age''] = [''name'', ''age'']"
    by code_simp
  have h: "\<exists>c\<in>set (sanitized_columns [''name'', ''age'']).
             c \<notin> set (dbColumnNames \<lparr>t_columns = [''name''], t_rows = [], t_serial = 1\<rparr>)"
    by (simp add: sc dbColumnNames_def system_columns_def)
  from schema_mismatch_fails_first[OF h, of "\<lambda>s. False" 5
      "\<lparr>inserts = [\<lparr>ins_row = [(''name'', Some ''Al''), (''age'', Some ''30'')], ins_hash = ''h'',
                      ins_rowId = ''h'', ins_index = 0\<rparr>],
          updates = [], deletes = [], unchanged = 0\<rparr>" 2
      "[[(''name'', Some ''Al''), (''age'', Some ''30'')]]" computeRowHash]
  show ?thesis
    by (simp add: sc dbColumnNames_def system_columns_def Let_def applyDiff_def storeSnapshot_def)
qed

subsection \<open>Runs that differ only in a counter\<close>










lemma applyDiff_ready:
  assumes "\<not> rejects Connect" "\<not> rejects Begin" "\<not> rejects SelectColumns"
    and "filter (\<lambda>col. col \<notin> set (dbColumnNames tbl)) (sanitized_columns columns) = []"
  shows "applyDiff rejects now tbl columns d rv
     = commit rejects tbl (apply_rows rejects now columns (sanitized_columns columns) d rv (start tbl))"
  using assms by (simp add: applyDiff_def Let_def)

lemma applyDiff_refused:
  assumes "\<not> (\<not> rejects Connect \<and> \<not> rejects Begin \<and> \<not> rejects SelectColumns
     \<and> filter (\<lambda>col. col \<notin> set (dbColumnNames tbl)) (sanitized_columns columns) = [])"
  shows "applyDiff rejects now tbl columns d rv = applyDiff rejects now tbl columns d' rv
    \<and> store (applyDiff rejects now tbl columns d rv) = tbl
    \<and> (\<exists>err. result (applyDiff rejects now tbl columns d rv) = Inl err)"
proof (cases "rejects Connect")
  case True
  then show ?thesis by (simp add: applyDiff_def)
next
  case c: False
  show ?thesis
  proof (cases "rejects Begin")
    case True
    with c show ?thesis by (simp add: applyDiff_def)
  next
    case b: False
    show ?thesis
    proof (cases "rejects SelectColumns")
      case True
      with c b show ?thesis by (simp add: applyDiff_def Let_def)
    next
      case False
      with c b assms show ?thesis by (simp add: applyDiff_def Let_def)
    qed
  qed
qed



lemma apply_rows_split:
  "apply_rows rejects now columns sc (d\<lparr>updates := before @ rest\<rparr>) rv r
     = apply_rows rejects now columns sc (d\<lparr>updates := rest\<rparr>) rv
         (fold (apply_update rejects now columns sc rv) before r)"
  by (simp add: apply_rows_def)

lemma apply_rows_item:
  "apply_rows rejects now columns sc (d\<lparr>updates := item # rest\<rparr>) rv r
     = apply_rows rejects now columns sc (d\<lparr>updates := rest\<rparr>) rv
         (apply_update rejects now columns sc rv item r)"
  by (simp add: apply_rows_def)




subsection \<open>What one statement does to the table\<close>

lemma change_id [simp]: "e_id (change now s e) = e_id e"
  by (cases s) (simp_all add: change.simps)

lemma change_inactive [simp]: "\<not> active e \<Longrightarrow> change now s e = e"
  by (cases s) (simp_all add: change.simps)

lemma change_stamped:
  "stamped N s \<Longrightarrow> change now s e = e \<or> e_revision (change now s e) = N"
  by (cases s) (simp_all add: stamped_def change.simps)

lemma change_closing:
  "stamped N s \<Longrightarrow> active e \<or> (e_deleted_at e = Some now \<and> e_revision e = N) \<Longrightarrow>
   active (change now s e)
     \<or> (e_deleted_at (change now s e) = Some now \<and> e_revision (change now s e) = N)"
  by (cases s) (auto simp add: stamped_def active_def change.simps)

lemma change_delete_inactive: "e_id e = i \<Longrightarrow> \<not> active (change now (SoftDeleteById N i) e)"
  by (simp add: change.simps active_def)

lemma added_cases:
  "added s tbl = [] \<or> (\<exists>e. added s tbl = [e] \<and> e_id e = t_serial tbl \<and> active e
      \<and> (\<forall>N. stamped N s \<longrightarrow> e_revision e = N))"
  by (cases s) (simp_all add: active_def stamped_def added.simps)

lemma added_no_insert [simp]:
  "added (Update c h rv src v i) tbl = []" "added (SoftDeleteById rv i) tbl = []"
  "added (SoftDeleteByHash rv h) tbl = []"
  by (simp_all add: added.simps)

lemma rows_exec: "t_rows (exec now s tbl) = map (change now s) (t_rows tbl) @ added s tbl"
  by (simp add: exec_def)

lemma serial_exec: "t_serial (exec now s tbl) = t_serial tbl + int (length (added s tbl))"
  by (simp add: exec_def)

lemma ids_kept:
  assumes "i \<in> e_id ` set (t_rows tbl)"
  shows "i \<in> e_id ` set (t_rows (exec now s tbl))"
proof -
  from assms obtain e where "e \<in> set (t_rows tbl)" and "e_id e = i" by auto
  then have "change now s e \<in> set (t_rows (exec now s tbl))" and "e_id (change now s e) = i"
    by (simp_all add: rows_exec)
  then show ?thesis by (rule image_eqI[OF sym, rotated]) qed

lemma row_of_exec:
  assumes "e' \<in> set (t_rows (exec now s tbl))"
  shows "(\<exists>e\<in>set (t_rows tbl). e' = change now s e) \<or> e' \<in> set (added s tbl)"
  using assms by (auto simp add: rows_exec)

lemma tombstoned_exec:
  assumes "tombstoned i tbl"
  shows "tombstoned i (exec now s tbl)"
proof -
  from assms have p: "i \<in> e_id ` set (t_rows tbl)" and l: "i < t_serial tbl"
    and t: "\<forall>e\<in>set (t_rows tbl). e_id e = i \<longrightarrow> \<not> active e"
    by (simp_all add: tombstoned_def)
  have "\<not> active e'" if "e' \<in> set (t_rows (exec now s tbl))" and "e_id e' = i" for e'
  proof -
    from row_of_exec[OF that(1)] show ?thesis
    proof
      assume "\<exists>e\<in>set (t_rows tbl). e' = change now s e"
      then obtain e where e: "e \<in> set (t_rows tbl)" "e' = change now s e" by auto
      with that(2) t have "\<not> active e" by simp
      with e show ?thesis by simp
    next
      assume "e' \<in> set (added s tbl)"
      with added_cases[of s tbl] have "e_id e' = t_serial tbl" by auto
      with that(2) l show ?thesis by simp
    qed
  qed
  moreover have "i < t_serial (exec now s tbl)" using l by (simp add: serial_exec)
  ultimately show ?thesis using ids_kept[OF p] by (auto simp add: tombstoned_def)
qed

lemma closing_exec:
  assumes "closing N now i tbl" and "stamped N s"
  shows "closing N now i (exec now s tbl)"
proof -
  from assms(1) have p: "i \<in> e_id ` set (t_rows tbl)" and l: "i < t_serial tbl"
    and t: "\<forall>e\<in>set (t_rows tbl). e_id e = i \<longrightarrow>
              active e \<or> (e_deleted_at e = Some now \<and> e_revision e = N)"
    by (simp_all add: closing_def)
  have "active e' \<or> (e_deleted_at e' = Some now \<and> e_revision e' = N)"
    if "e' \<in> set (t_rows (exec now s tbl))" and "e_id e' = i" for e'
  proof -
    from row_of_exec[OF that(1)] show ?thesis
    proof
      assume "\<exists>e\<in>set (t_rows tbl). e' = change now s e"
      then obtain e where e: "e \<in> set (t_rows tbl)" "e' = change now s e" by auto
      with that(2) t have "active e \<or> (e_deleted_at e = Some now \<and> e_revision e = N)" by simp
      from change_closing[OF assms(2) this] e show ?thesis by simp
    next
      assume "e' \<in> set (added s tbl)"
      with added_cases[of s tbl] show ?thesis by auto
    qed
  qed
  moreover have "i < t_serial (exec now s tbl)" using l by (simp add: serial_exec)
  ultimately show ?thesis using ids_kept[OF p] by (auto simp add: closing_def)
qed

lemma closing_delete:
  assumes "closing N now i tbl"
  shows "tombstoned i (exec now (SoftDeleteById N i) tbl)"
proof -
  from assms have p: "i \<in> e_id ` set (t_rows tbl)" and l: "i < t_serial tbl"
    by (simp_all add: closing_def)
  have "\<not> active e'" if "e' \<in> set (t_rows (exec now (SoftDeleteById N i) tbl))" and "e_id e' = i" for e'
  proof -
    from that(1) obtain e where e: "e' = change now (SoftDeleteById N i) e"
      by (auto simp add: rows_exec)
    with that(2) have "e_id e = i" by simp
    then show ?thesis unfolding e by (rule change_delete_inactive)
  qed
  moreover have "i < t_serial (exec now (SoftDeleteById N i) tbl)" using l by (simp add: serial_exec)
  ultimately show ?thesis using ids_kept[OF p] by (auto simp add: tombstoned_def)
qed

lemma closing_tombstoned:
  assumes "closing N now i tbl" and "tombstoned i tbl"
  shows "\<exists>e\<in>set (t_rows tbl). e_id e = i \<and> e_deleted_at e = Some now \<and> e_revision e = N"
  using assms by (auto simp add: closing_def tombstoned_def)

lemma stamped_exec_rows:
  assumes "stamped N s" and "e' \<in> set (t_rows (exec now s tbl))"
  shows "e' \<in> set (t_rows tbl) \<or> e_revision e' = N"
proof -
  from row_of_exec[OF assms(2)] show ?thesis
  proof
    assume "\<exists>e\<in>set (t_rows tbl). e' = change now s e"
    then obtain e where e: "e \<in> set (t_rows tbl)" "e' = change now s e" by auto
    with change_stamped[OF assms(1), of now e] show ?thesis by auto
  next
    assume "e' \<in> set (added s tbl)"
    with added_cases[of s tbl] assms(1) show ?thesis by auto
  qed
qed

lemma tombstone_kept:
  assumes "e \<in> set (t_rows tbl)" and "\<not> active e"
  shows "e \<in> set (t_rows (exec now s tbl))"
proof -
  from assms(1) have "change now s e \<in> set (t_rows (exec now s tbl))"
    by (simp add: rows_exec)
  with assms(2) show ?thesis by simp
qed

lemma unchanged_kept:
  assumes "e \<in> set (t_rows tbl)" and "change now s e = e"
  shows "e \<in> set (t_rows (exec now s tbl))"
proof -
  from assms(1) have "change now s e \<in> set (t_rows (exec now s tbl))"
    by (simp add: rows_exec)
  with assms(2) show ?thesis by simp
qed

lemma update_no_target:
  assumes "\<forall>e\<in>set (t_rows tbl). e_id e = i \<longrightarrow> \<not> active e"
  shows "exec now (Update c h rv src v i) tbl = tbl"
proof -
  have "map (change now (Update c h rv src v i)) (t_rows tbl) = t_rows tbl"
    using assms by (intro map_idI) (auto simp add: change.simps)
  then show ?thesis by (simp add: exec_def)
qed

lemma update_keeps_inactive:
  assumes "\<forall>e\<in>set (t_rows tbl). e_id e = i \<longrightarrow> \<not> active e"
  shows "\<forall>e\<in>set (t_rows (exec now (Update c h rv src v j) tbl)). e_id e = i \<longrightarrow> \<not> active e"
proof
  fix e' assume "e' \<in> set (t_rows (exec now (Update c h rv src v j) tbl))"
  then obtain e where e: "e \<in> set (t_rows tbl)" "e' = change now (Update c h rv src v j) e"
    by (auto simp add: rows_exec)
  show "e_id e' = i \<longrightarrow> \<not> active e'"
  proof
    assume "e_id e' = i"
    with e assms have "\<not> active e" by simp
    with e show "\<not> active e'" by simp
  qed
qed

subsection \<open>Invariants of the loops and of a whole call\<close>

lemma change_untouched:
  "e_id e \<noteq> j \<Longrightarrow> change now (Update c h rv src v j) e = e"
  "change now (Insert c h rv src v) e = e"
  "e_id e \<noteq> j \<Longrightarrow> change now (SoftDeleteById rv j) e = e"
  "e_row_hash e \<noteq> h \<Longrightarrow> change now (SoftDeleteByHash rv h) e = e"
  by (simp_all add: change.simps)

lemma apply_update_table:
  "r_table (apply_update rejects now columns sc N item r)
     = (if truthy_id (upd_dbId item)
          \<and> \<not> rejects (Update sc (upd_hash item) N ''sheet'' (data_values columns (upd_row item))
                          (the (upd_dbId item)))
        then exec now (Update sc (upd_hash item) N ''sheet'' (data_values columns (upd_row item))
                          (the (upd_dbId item))) (r_table r)
        else r_table r)"
  by (simp add: apply_update_def send_def caught_def Let_def)

lemma apply_insert_table:
  "r_table (apply_insert rejects now columns sc N item r)
     = (if \<not> rejects (Insert sc (ins_hash item) N ''sheet'' (data_values columns (ins_row item)))
        then exec now (Insert sc (ins_hash item) N ''sheet'' (data_values columns (ins_row item)))
               (r_table r)
        else r_table r)"
  by (simp add: apply_insert_def send_def caught_def Let_def)

lemma apply_delete_table:
  "r_table (apply_delete rejects now N item r)
     = (if truthy_id (del_dbId item)
        then (if \<not> rejects (SoftDeleteById N (the (del_dbId item)))
              then exec now (SoftDeleteById N (the (del_dbId item))) (r_table r) else r_table r)
        else (if \<not> rejects (SoftDeleteByHash N (del_hash item))
              then exec now (SoftDeleteByHash N (del_hash item)) (r_table r) else r_table r))"
  by (simp add: apply_delete_def send_def caught_def Let_def)

lemma seed_row_table:
  "r_table (seed_row rejects now columns sc hashFn x r)
     = (if \<not> rejects (Insert sc (hashFn x columns) 1 ''sheet'' (data_values columns x))
        then exec now (Insert sc (hashFn x columns) 1 ''sheet'' (data_values columns x)) (r_table r)
        else r_table r)"
  by (simp add: seed_row_def send_def caught_def Let_def)

lemma fold_inv_set:
  assumes "\<And>x r. x \<in> set xs \<Longrightarrow> P r \<Longrightarrow> P (f x r)" and "P r"
  shows "P (fold f xs r)"
  using assms
proof (induction xs arbitrary: r)
  case Nil
  then show ?case by simp
next
  case (Cons x xs)
  have "P (f x r)" by (rule Cons.prems(1)) (simp_all add: Cons.prems(2))
  moreover have "\<And>y r. y \<in> set xs \<Longrightarrow> P r \<Longrightarrow> P (f y r)"
    by (rule Cons.prems(1)) simp_all
  ultimately have "P (fold f xs (f x r))" by (rule Cons.IH[rotated])
  then show ?case by simp
qed

lemma updates_inv:
  assumes "\<And>t s. I t \<Longrightarrow> stamped N s \<Longrightarrow> I (exec now s t)" and "I (r_table r)"
  shows "I (r_table (fold (apply_update rejects now columns sc N) xs r))"
proof (rule fold_inv_set[where P = "\<lambda>r. I (r_table r)"])
  show "I (r_table r)" by fact
next
  fix x and r :: run assume "I (r_table r)"
  then show "I (r_table (apply_update rejects now columns sc N x r))"
    unfolding apply_update_table by (simp add: assms(1) stamped_def)
qed

lemma inserts_inv:
  assumes "\<And>t s. I t \<Longrightarrow> stamped N s \<Longrightarrow> I (exec now s t)" and "I (r_table r)"
  shows "I (r_table (fold (apply_insert rejects now columns sc N) xs r))"
proof (rule fold_inv_set[where P = "\<lambda>r. I (r_table r)"])
  show "I (r_table r)" by fact
next
  fix x and r :: run assume "I (r_table r)"
  then show "I (r_table (apply_insert rejects now columns sc N x r))"
    unfolding apply_insert_table by (simp add: assms(1) stamped_def)
qed

lemma deletes_inv:
  assumes "\<And>t s. I t \<Longrightarrow> stamped N s \<Longrightarrow> I (exec now s t)" and "I (r_table r)"
  shows "I (r_table (fold (apply_delete rejects now N) xs r))"
proof (rule fold_inv_set[where P = "\<lambda>r. I (r_table r)"])
  show "I (r_table r)" by fact
next
  fix x and r :: run assume "I (r_table r)"
  then show "I (r_table (apply_delete rejects now N x r))"
    unfolding apply_delete_table by (simp add: assms(1) stamped_def)
qed

lemma seeds_inv:
  assumes "\<And>t s. I t \<Longrightarrow> stamped 1 s \<Longrightarrow> I (exec now s t)" and "I (r_table r)"
  shows "I (r_table (fold (seed_row rejects now columns sc hashFn) xs r))"
proof (rule fold_inv_set[where P = "\<lambda>r. I (r_table r)"])
  show "I (r_table r)" by fact
next
  fix x and r :: run assume "I (r_table r)"
  then show "I (r_table (seed_row rejects now columns sc hashFn x r))"
    unfolding seed_row_table by (simp add: assms(1) stamped_def)
qed

lemma apply_rows_inv:
  assumes "\<And>t s. I t \<Longrightarrow> stamped N s \<Longrightarrow> I (exec now s t)" and "I (r_table r)"
  shows "I (r_table (apply_rows rejects now columns sc d N r))"
proof -
  have "I (r_table (fold (apply_update rejects now columns sc N) (updates d) r))"
    using assms by (rule updates_inv[where I = I])
  then have "I (r_table (fold (apply_insert rejects now columns sc N) (inserts d)
                 (fold (apply_update rejects now columns sc N) (updates d) r)))"
    using assms(1) by (intro inserts_inv[where I = I])
  then have "I (r_table (fold (apply_delete rejects now N) (deletes d)
               (fold (apply_insert rejects now columns sc N) (inserts d)
                 (fold (apply_update rejects now columns sc N) (updates d) r))))"
    using assms(1) by (intro deletes_inv[where I = I])
  then show ?thesis by (simp add: apply_rows_def Let_def)
qed

lemma store_commit: "store (commit rejects tbl r) = tbl \<or> store (commit rejects tbl r) = r_table r"
  by (simp add: commit_def)

lemma store_commit_seed:
  "store (commit_seed rejects tbl r) = tbl \<or> store (commit_seed rejects tbl r) = r_table r"
  by (simp add: commit_seed_def)

lemma store_applyDiff:
  "store (applyDiff rejects now tbl columns d N) = tbl
   \<or> store (applyDiff rejects now tbl columns d N)
       = r_table (apply_rows rejects now columns (sanitized_columns columns) d N (start tbl))"
proof (cases "\<not> rejects Connect \<and> \<not> rejects Begin \<and> \<not> rejects SelectColumns
     \<and> filter (\<lambda>col. col \<notin> set (dbColumnNames tbl)) (sanitized_columns columns) = []")
  case True
  then show ?thesis using store_commit by (simp add: applyDiff_ready)
next
  case False
  from applyDiff_refused[OF False, of now d N d, THEN conjunct2] show ?thesis by simp
qed

lemma table_start [simp]: "r_table (start tbl) = tbl"
  by (simp add: start_def)

lemma applyDiff_inv:
  assumes "\<And>t s. I t \<Longrightarrow> stamped N s \<Longrightarrow> I (exec now s t)" and "I tbl"
  shows "I (store (applyDiff rejects now tbl columns d N))"
proof -
  have "I (r_table (start tbl))" using assms(2) by simp
  with assms(1)
  have "I (r_table (apply_rows rejects now columns (sanitized_columns columns) d N (start tbl)))"
    by (rule apply_rows_inv[where I = I])
  with store_applyDiff[of rejects now tbl columns d N] assms(2) show ?thesis by auto
qed

subsection \<open>Revisions\<close>

lemma truthy_id_the: "truthy_id x \<Longrightarrow> x = Some (the x)"
  by (cases x) (simp_all add: truthy_id_def)

lemma unreferenced_kept_rows:
  assumes e: "\<not> referenced d e" and r: "e \<in> set (t_rows (r_table r))"
  shows "e \<in> set (t_rows (r_table (apply_rows rejects now columns sc d N r)))"
proof -
  let ?P = "\<lambda>r. e \<in> set (t_rows (r_table r))"
  have u: "?P (fold (apply_update rejects now columns sc N) (updates d) r)"
  proof (rule fold_inv_set[where P = ?P])
    fix x and r :: run assume x: "x \<in> set (updates d)" and p: "?P r"
    show "?P (apply_update rejects now columns sc N x r)"
    proof (cases "truthy_id (upd_dbId x)")
      case True
      from truthy_id_the[OF True] x e have "e_id e \<noteq> the (upd_dbId x)"
        by (auto simp add: referenced_def)
      then show ?thesis using p
        unfolding apply_update_table by (simp add: unchanged_kept change_untouched)
    next
      case False
      then show ?thesis using p unfolding apply_update_table by simp
    qed
  qed (rule r)
  have i: "?P (fold (apply_insert rejects now columns sc N) (inserts d)
            (fold (apply_update rejects now columns sc N) (updates d) r))"
  proof (rule fold_inv_set[where P = ?P])
    fix x and r :: run assume "?P r"
    then show "?P (apply_insert rejects now columns sc N x r)"
      unfolding apply_insert_table by (simp add: unchanged_kept change_untouched)
  qed (rule u)
  have "?P (fold (apply_delete rejects now N) (deletes d)
          (fold (apply_insert rejects now columns sc N) (inserts d)
            (fold (apply_update rejects now columns sc N) (updates d) r)))"
  proof (rule fold_inv_set[where P = ?P])
    fix x and r :: run assume x: "x \<in> set (deletes d)" and p: "?P r"
    show "?P (apply_delete rejects now N x r)"
    proof (cases "truthy_id (del_dbId x)")
      case True
      from truthy_id_the[OF True] x e have "e_id e \<noteq> the (del_dbId x)"
        by (auto simp add: referenced_def)
      then show ?thesis using p True
        unfolding apply_delete_table by (simp add: unchanged_kept change_untouched)
    next
      case False
      with x e have "e_row_hash e \<noteq> del_hash x"
        by (auto simp add: referenced_def)
      then show ?thesis using p False
        unfolding apply_delete_table by (simp add: unchanged_kept change_untouched)
    qed
  qed (rule i)
  then show ?thesis by (simp add: apply_rows_def Let_def)
qed

text \<open>
  C7.  After applyDiff with revision \<open>N\<close>, every row of the table is a row the table had
  before, unchanged, or carries the revision \<open>N\<close>: whatever the pass wrote (updated,
  inserted or soft-deleted) is stamped \<open>N\<close>.  A row that no item of the diff refers to is
  still in the table with all its fields as they were.
\<close>

theorem revision_stamping:
  "(let tbl' = store (applyDiff rejects now tbl columns d N)
    in (\<forall>e'\<in>set (t_rows tbl'). e' \<in> set (t_rows tbl) \<or> e_revision e' = N)
     \<and> (\<forall>e\<in>set (t_rows tbl). \<not> referenced d e \<longrightarrow> e \<in> set (t_rows tbl')))"
proof -
  let ?tbl' = "store (applyDiff rejects now tbl columns d N)"
  let ?I = "\<lambda>t. \<forall>e'\<in>set (t_rows t). e' \<in> set (t_rows tbl) \<or> e_revision e' = N"
  have a: "?I ?tbl'"
  proof (rule applyDiff_inv[where I = ?I])
    fix t :: table and s assume t: "?I t" and s: "stamped N s"
    show "?I (exec now s t)"
    proof
      fix e' assume "e' \<in> set (t_rows (exec now s t))"
      from stamped_exec_rows[OF s this] t show "e' \<in> set (t_rows tbl) \<or> e_revision e' = N"
        by auto
    qed
  qed simp
  have b: "e \<in> set (t_rows ?tbl')" if "e \<in> set (t_rows tbl)" and "\<not> referenced d e" for e
  proof -
    from that(1) have "e \<in> set (t_rows (r_table (start tbl)))" by simp
    from unreferenced_kept_rows[OF that(2) this]
    have "e \<in> set (t_rows (r_table (apply_rows rejects now columns (sanitized_columns columns)
              d N (start tbl))))" .
    with store_applyDiff[of rejects now tbl columns d N] that(1) show ?thesis by auto
  qed
  from a b show ?thesis unfolding Let_def by blast
qed


section \<open>Properties of the sync lock\<close>

text \<open>
  C8.  acquireSyncLock throws exactly when the key is in the map, and then leaves the
  locks as they were; otherwise it puts the key into the map and returns a release
  function that removes it.  The entries of all other keys stay as they were.  The function
  has no point of suspension: it takes no account of other tasks.
\<close>

theorem acquireSyncLock_contention:
  "((\<exists>error. fst (acquireSyncLock sheetId st) = Inl error) \<longleftrightarrow> syncLocks st sheetId \<noteq> None)
   \<and> (syncLocks st sheetId \<noteq> None \<longrightarrow> snd (acquireSyncLock sheetId st) = st)
   \<and> (syncLocks st sheetId = None \<longrightarrow>
        (\<exists>releaseLock. fst (acquireSyncLock sheetId st) = Inr releaseLock
           \<and> (\<forall>st'. syncLocks (call_release releaseLock st') sheetId = None))
        \<and> syncLocks (snd (acquireSyncLock sheetId st)) sheetId \<noteq> None)
   \<and> (\<forall>other. other \<noteq> sheetId \<longrightarrow>
          syncLocks (snd (acquireSyncLock sheetId st)) other = syncLocks st other)"
  by (auto simp add: acquireSyncLock_def Let_def)

theorem acquireSyncLock_contention_witness:
  "syncLocks \<lparr>syncLocks = [''s1'' \<mapsto> 0], resolved = {}, fresh = 1\<rparr> ''s1'' \<noteq> None
   \<and> fst (acquireSyncLock ''s1'' \<lparr>syncLocks = [''s1'' \<mapsto> 0], resolved = {}, fresh = 1\<rparr>)
       = Inl (Error ''Sync already in progress for sheet s1'')
   \<and> snd (acquireSyncLock ''s1'' \<lparr>syncLocks = [''s1'' \<mapsto> 0], resolved = {}, fresh = 1\<rparr>)
       = \<lparr>syncLocks = [''s1'' \<mapsto> 0], resolved = {}, fresh = 1\<rparr>
   \<and> syncLocks \<lparr>syncLocks = [''s1'' \<mapsto> 0], resolved = {}, fresh = 1\<rparr> ''s2'' = None
   \<and> fst (acquireSyncLock ''s2'' \<lparr>syncLocks = [''s1'' \<mapsto> 0], resolved = {}, fresh = 1\<rparr>)
       = Inr (ReleaseFn ''s2'' 1)
   \<and> syncLocks (snd (acquireSyncLock ''s2'' \<lparr>syncLocks = [''s1'' \<mapsto> 0], resolved = {}, fresh = 1\<rparr>)) ''s2''
       = Some 1
   \<and> syncLocks (snd (acquireSyncLock ''s2'' \<lparr>syncLocks = [''s1'' \<mapsto> 0], resolved = {}, fresh = 1\<rparr>)) ''s1''
       = Some 0"
  using acquireSyncLock_contention[of "''s1''" "\<lparr>syncLocks = [''s1'' \<mapsto> 0], resolved = {}, fresh = 1\<rparr>"]
    acquireSyncLock_contention[of "''s2''" "\<lparr>syncLocks = [''s1'' \<mapsto> 0], resolved = {}, fresh = 1\<rparr>"]
  by (simp add: acquireSyncLock_def Let_def)

lemma acquire_free:
  "syncLocks st sheetId = None \<Longrightarrow>
   acquireSyncLock sheetId st
     = (Inr (ReleaseFn sheetId (fresh st)),
        st\<lparr>syncLocks := (syncLocks st)(sheetId \<mapsto> fresh st), fresh := fresh st + 1\<rparr>)"
  by (simp add: acquireSyncLock_def Let_def)

text \<open>
  C9.  When the lock is free at the call, the key is out of the map when withSyncLock
  ends, whatever \<^verbatim>\<open>syncFunction\<close> and the other tasks did; the value returned by
  \<^verbatim>\<open>syncFunction\<close> is returned and the error it throws is thrown again.
\<close>

theorem withSyncLock_always_releases:
  assumes "syncLocks st sheetId = None"
  shows "syncLocks (snd (withSyncLock sheetId syncFunction others st)) sheetId = None
    \<and> (\<forall>r st2. syncFunction (snd (acquireSyncLock sheetId st)) = (Inr r, st2)
          \<longrightarrow> fst (withSyncLock sheetId syncFunction others st) = Inr r)
    \<and> (\<forall>message st2. syncFunction (snd (acquireSyncLock sheetId st)) = (Inl (Error message), st2)
          \<longrightarrow> fst (withSyncLock sheetId syncFunction others st) = Inl (Error message))"
proof -
  let ?st1 = "st\<lparr>syncLocks := (syncLocks st)(sheetId \<mapsto> fresh st), fresh := fresh st + 1\<rparr>"
  obtain res st2 where f: "syncFunction ?st1 = (res, st2)"
    by (cases "syncFunction ?st1") auto
  show ?thesis
  proof (cases res)
    case (Inr r)
    with f assms show ?thesis
      by (simp add: withSyncLock_def acquire_free)
  next
    case (Inl error)
    obtain error' st3 where e: "on_error sheetId others error st2 = (error', st3)"
      by (cases "on_error sheetId others error st2") auto
    have "\<forall>message. error = Error message \<longrightarrow> error' = Error message"
      using e by (auto simp add: on_error_def split: if_splits)
    with f Inl e assms show ?thesis
      by (auto simp add: withSyncLock_def acquire_free)
  qed
qed

theorem withSyncLock_always_releases_witness:
  "syncLocks \<lparr>syncLocks = Map.empty, resolved = {}, fresh = 0\<rparr> ''s1'' = None
   \<and> withSyncLock ''s1'' (\<lambda>st. (Inr (7::nat), st)) (\<lambda>st. st)
        \<lparr>syncLocks = Map.empty, resolved = {}, fresh = 0\<rparr>
       = (Inr 7, \<lparr>syncLocks = Map.empty, resolved = {0}, fresh = 1\<rparr>)
   \<and> fst (withSyncLock ''s1'' (\<lambda>st. (Inl (Error ''boom'') :: thrown + nat, st)) (\<lambda>st. st)
        \<lparr>syncLocks = Map.empty, resolved = {}, fresh = 0\<rparr>) = Inl (Error ''boom'')
   \<and> syncLocks (snd (withSyncLock ''s1'' (\<lambda>st. (Inl (Error ''boom'') :: thrown + nat, st)) (\<lambda>st. st)
        \<lparr>syncLocks = Map.empty, resolved = {}, fresh = 0\<rparr>)) ''s1'' = None"
  using withSyncLock_always_releases
     [of "\<lparr>syncLocks = Map.empty, resolved = {}, fresh = 0\<rparr>" "''s1''"
         "\<lambda>st. (Inr (7::nat), st)" "\<lambda>st. st"]
    withSyncLock_always_releases
     [of "\<lparr>syncLocks = Map.empty, resolved = {}, fresh = 0\<rparr>" "''s1''"
         "\<lambda>st. (Inl (Error ''boom'') :: thrown + nat, st)" "\<lambda>st. st"]
  by (simp add: withSyncLock_def acquireSyncLock_def Let_def on_error_def)

end
